theory Spec2Isabelle
  imports Main "HOL-Library.Word"
begin

unbundle bit_operations_syntax

section \<open>The Python primitives the codec is written with\<close>

text \<open>
  The module \<open>message_handler.py\<close> consists of three pure functions over Python's
  unbounded integers (\<open>int\<close> here), text strings (\<open>string\<close> here) and lists. Every
  exception the module can raise is a \<open>ValueError\<close>; the constructors below tell the
  five places apart where one arises: the two explicit \<open>raise\<close> statements, a string
  that \<open>int(s, base)\<close> does not accept, an integer with more decimal digits than
  \<open>str\<close> converts, and a shift by a negative count.

  Strings are modelled over ASCII: a \<open>char\<close> stands for the code point of the same
  number. Python's \<open>int\<close> additionally accepts non-ASCII white space and non-ASCII
  decimal digits; such characters are outside this model.
\<close>

datatype py_error =
    CommandTooLong    \<comment> \<open>ValueError("Command number should be less or equal to 32 bits long.")\<close>
  | ArrayTooLong      \<comment> \<open>ValueError("Array length must be a less or equal than 32 bits long.")\<close>
  | InvalidLiteral    \<comment> \<open>ValueError: invalid literal for int() with base b\<close>
  | IntStrLimit       \<comment> \<open>ValueError: Exceeds the limit (4300 digits) for integer string conversion\<close>
  | NegativeShift     \<comment> \<open>ValueError: negative shift count\<close>

subsection \<open>Rendering integers: \<open>bin\<close>, \<open>str\<close>, \<open>zfill\<close>\<close>

definition digit_char :: "int \<Rightarrow> char" where
  \<comment> \<open>The character of a digit \<open>0..9\<close>.\<close>
  "digit_char d = char_of (48 + d)"

function bin_digits :: "int \<Rightarrow> string" where
  \<comment> \<open>The binary digits of a non-negative integer, most significant first.\<close>
  "bin_digits n =
     (if n < 2 then [digit_char n] else bin_digits (n div 2) @ [digit_char (n mod 2)])"
  by pat_completeness auto
termination
  by (relation "measure nat") auto

declare bin_digits.simps [simp del]

definition py_bin :: "int \<Rightarrow> string" where
  \<comment> \<open>\<open>bin(n)\<close>: \<open>'0b101'\<close>, and \<open>'-0b101'\<close> for a negative argument.\<close>
  "py_bin n =
     (if n < 0 then ''-0b'' @ bin_digits (- n) else ''0b'' @ bin_digits n)"

function dec_digits :: "int \<Rightarrow> string" where
  \<comment> \<open>The decimal digits of a non-negative integer, most significant first.\<close>
  "dec_digits n =
     (if n < 10 then [digit_char n] else dec_digits (n div 10) @ [digit_char (n mod 10)])"
  by pat_completeness auto
termination
  by (relation "measure nat") auto

declare dec_digits.simps [simp del]

definition py_str :: "int \<Rightarrow> py_error + string" where
  \<comment> \<open>\<open>str(n)\<close> of an integer: its decimal digits, after a minus sign when negative.
      With the interpreter's default settings an integer of more than 4300 decimal
      digits is not converted: \<open>str\<close> raises.\<close>
  "py_str n =
     (let ds = dec_digits (if n < 0 then - n else n)
      in if int (length ds) > 4300 then Inl IntStrLimit
         else Inr (if n < 0 then CHR ''-'' # ds else ds))"

fun join_str :: "int list \<Rightarrow> py_error + string" where
  \<comment> \<open>\<open>''.join(str(bit) for bit in response_message)\<close>: the first failure raises.\<close>
  "join_str [] = Inr []"
| "join_str (b # bs) =
     (case py_str b of
        Inl e \<Rightarrow> Inl e
      | Inr s \<Rightarrow> (case join_str bs of Inl e \<Rightarrow> Inl e | Inr r \<Rightarrow> Inr (s @ r)))"

definition zfill :: "nat \<Rightarrow> string \<Rightarrow> string" where
  \<comment> \<open>\<open>s.zfill(w)\<close>: pad with zeros on the left up to width \<open>w\<close>, after a leading sign.\<close>
  "zfill w s =
     (case s of
        [] \<Rightarrow> replicate w (CHR ''0'')
      | c # r \<Rightarrow>
          if c = CHR ''+'' \<or> c = CHR ''-''
          then c # replicate (w - length s) (CHR ''0'') @ r
          else replicate (w - length s) (CHR ''0'') @ s)"

subsection \<open>Slicing\<close>

definition clamp_index :: "nat \<Rightarrow> int \<Rightarrow> nat" where
  \<comment> \<open>A slice bound against a sequence of length \<open>len\<close>: a negative bound counts from
      the end; the result is clipped to \<open>0..len\<close>.\<close>
  "clamp_index len i = (if i < 0 then nat (max (i + int len) 0) else min (nat i) len)"

definition py_slice :: "int \<Rightarrow> int \<Rightarrow> 'a list \<Rightarrow> 'a list" where
  \<comment> \<open>\<open>s[a:b]\<close>. It never raises: an out-of-range slice is shorter or empty.\<close>
  "py_slice a b s =
     (let lo = clamp_index (length s) a; hi = clamp_index (length s) b
      in take (hi - lo) (drop lo s))"

subsection \<open>Parsing integers: \<open>int(s, 2)\<close> and \<open>int(c)\<close>\<close>

definition py_isspace :: "char \<Rightarrow> bool" where
  \<comment> \<open>The white space \<open>int\<close> skips around a literal: tab, line feed, vertical tab,
      form feed, carriage return and the space.\<close>
  "py_isspace c = (let k = (of_char c :: nat) in (9 \<le> k \<and> k \<le> 13) \<or> k = 32)"

definition strip_space :: "string \<Rightarrow> string" where
  "strip_space s = rev (dropWhile py_isspace (rev (dropWhile py_isspace s)))"

fun skip_sign :: "string \<Rightarrow> bool \<times> string" where
  "skip_sign [] = (False, [])"
| "skip_sign (c # r) =
     (if c = CHR ''+'' then (False, r)
      else if c = CHR ''-'' then (True, r)
      else (False, c # r))"

fun skip_prefix2 :: "string \<Rightarrow> string" where
  "skip_prefix2 (a # b # r) =
     (if a = CHR ''0'' \<and> (b = CHR ''b'' \<or> b = CHR ''B'')
      then (case r of [] \<Rightarrow> [] | u # r' \<Rightarrow> if u = CHR ''_'' then r' else u # r')
      else a # b # r)"
| "skip_prefix2 s = s"

fun scan_digits2 :: "bool \<Rightarrow> int \<Rightarrow> string \<Rightarrow> int option" where
  \<comment> \<open>The digits of a base-2 literal, single underscores allowed between digits. The
      flag says that no digit may be missing here: at the start and after an underscore.\<close>
  "scan_digits2 us acc [] = (if us then None else Some acc)"
| "scan_digits2 us acc (c # r) =
     (if c = CHR ''0'' then scan_digits2 False (2 * acc) r
      else if c = CHR ''1'' then scan_digits2 False (2 * acc + 1) r
      else if c = CHR ''_'' \<and> \<not> us then scan_digits2 True acc r
      else None)"

definition py_int2 :: "string \<Rightarrow> py_error + int" where
  \<comment> \<open>\<open>int(s, 2)\<close>: white space around, an optional sign, an optional \<open>0b\<close> prefix, then
      at least one binary digit. The empty string is an invalid literal.\<close>
  "py_int2 s =
     (case skip_sign (strip_space s) of
        (neg, t) \<Rightarrow>
          (case scan_digits2 True 0 (skip_prefix2 t) of
             None \<Rightarrow> Inl InvalidLiteral
           | Some n \<Rightarrow> Inr (if neg then - n else n)))"

definition py_int10_char :: "char \<Rightarrow> py_error + int" where
  \<comment> \<open>\<open>int(c)\<close> of a one-character string: the value of a decimal digit.\<close>
  "py_int10_char c =
     (let k = (of_char c :: int)
      in if 48 \<le> k \<and> k \<le> 57 then Inr (k - 48) else Inl InvalidLiteral)"

fun int_each :: "string \<Rightarrow> py_error + int list" where
  \<comment> \<open>\<open>list(int(contact) for contact in din_status)\<close>: the first failure raises.\<close>
  "int_each [] = Inr []"
| "int_each (c # cs) =
     (case py_int10_char c of
        Inl e \<Rightarrow> Inl e
      | Inr v \<Rightarrow> (case int_each cs of Inl e \<Rightarrow> Inl e | Inr vs \<Rightarrow> Inr (v # vs)))"

definition int_from_bytes_big :: "string \<Rightarrow> int" where
  \<comment> \<open>\<open>int.from_bytes(b, byteorder='big')\<close>\<close>
  "int_from_bytes_big b = foldl (\<lambda>a c. 256 * a + of_char c) 0 b"

section \<open>The request builder\<close>

definition message_id :: string where
  "message_id = ''RQ''"

definition generate_request_message :: "int \<Rightarrow> py_error + string" where
  "generate_request_message command_number =
     (let int_message_id = int_from_bytes_big message_id;
          bin_command_number = zfill 8 (drop 2 (py_bin command_number));
          num_bits = length bin_command_number
      in if num_bits > 32 then Inl CommandTooLong
         else
           let command_number_8bit = command_number AND 0xFF;
               int_rep_0to2_bytes = push_bit 8 int_message_id OR command_number_8bit;
               bin_rep_0to2_bytes = zfill 24 (drop 2 (py_bin int_rep_0to2_bytes))
           in case py_int2 (py_slice 0 8 bin_rep_0to2_bytes) of
                Inl e \<Rightarrow> Inl e
              | Inr byte0 \<Rightarrow>
                 (case py_int2 (py_slice 8 16 bin_rep_0to2_bytes) of
                    Inl e \<Rightarrow> Inl e
                  | Inr byte1 \<Rightarrow>
                     (case py_int2 (py_slice 16 24 bin_rep_0to2_bytes) of
                        Inl e \<Rightarrow> Inl e
                      | Inr byte2 \<Rightarrow>
                          let int_rep_3rd_byte = byte0 + byte1 + byte2;
                              int_rep_0to3_bytes =
                                push_bit 8 int_rep_0to2_bytes OR int_rep_3rd_byte;
                              bin_rep_0to3_bytes =
                                zfill 32 (drop 2 (py_bin int_rep_0to3_bytes))
                          in Inr bin_rep_0to3_bytes)))"

section \<open>The response parser\<close>

definition parse_din_status_response :: "string \<Rightarrow> py_error + int list" where
  "parse_din_status_response response_message =
     (case py_int2 (py_slice 24 40 response_message) of
        Inl e \<Rightarrow> Inl e
      | Inr byte_lenght_of_din_status \<Rightarrow>
          let starting_index_of_din_status = 40;
              din_status =
                py_slice starting_index_of_din_status
                  (starting_index_of_din_status + byte_lenght_of_din_status * 8)
                  response_message
          in int_each din_status)"

section \<open>The status interpreter\<close>

definition din_status_to_32bit_signed_integer :: "int list \<Rightarrow> py_error + int" where
  "din_status_to_32bit_signed_integer response_message =
     (if length response_message > 32 then Inl ArrayTooLong
      else
        case join_str response_message of
          Inl e \<Rightarrow> Inl e
        | Inr bit_string \<Rightarrow>
           (case py_int2 bit_string of
              Inl e \<Rightarrow> Inl e
            | Inr unsigned_value \<Rightarrow>
                let num_bits = length response_message
                in if num_bits = 0 then Inl NegativeShift
                   else
                     let signed_value =
                           (if unsigned_value AND push_bit (num_bits - 1) 1 \<noteq> 0
                            then unsigned_value - push_bit num_bits 1
                            else unsigned_value);
                         signed_value_32bit = signed_value AND 0xFFFFFFFF
                     in Inr (if signed_value_32bit \<ge> 0x80000000
                             then signed_value_32bit - 0x100000000
                             else signed_value_32bit)))"

section \<open>Notions the properties are stated with\<close>

text \<open>
  A frame is a string over the characters \<open>0\<close> and \<open>1\<close>, most significant bit first.
  \<open>bin_val\<close> is the unsigned number a bit string stands for, \<open>frame_byte k\<close> the
  value of the eight characters \<open>8k .. 8k+7\<close>, and \<open>bin_fixed k v\<close> the \<open>k\<close> low
  bits of \<open>v\<close> written as a string of exactly \<open>k\<close> characters.
\<close>

definition is_bit_string :: "string \<Rightarrow> bool" where
  "is_bit_string s = list_all (\<lambda>c. c = CHR ''0'' \<or> c = CHR ''1'') s"

definition bit_of_char :: "char \<Rightarrow> int" where
  "bit_of_char c = (if c = CHR ''1'' then 1 else 0)"

definition bin_val :: "string \<Rightarrow> int" where
  "bin_val s = foldl (\<lambda>a c. 2 * a + bit_of_char c) 0 s"

definition frame_byte :: "nat \<Rightarrow> string \<Rightarrow> int" where
  "frame_byte k s = bin_val (take 8 (drop (8 * k) s))"

primrec bin_fixed :: "nat \<Rightarrow> int \<Rightarrow> string" where
  "bin_fixed 0 v = []"
| "bin_fixed (Suc k) v = bin_fixed k (v div 2) @ [digit_char (v mod 2)]"

text \<open>
  The length field of a response frame is the unsigned value of its bits 24 to 39.
\<close>

definition length_field :: "string \<Rightarrow> nat" where
  "length_field s = nat (bin_val (take 16 (drop 24 s)))"

text \<open>
  A DIN status array is a list over \<open>0\<close> and \<open>1\<close>; \<open>bits_value\<close> reads it as an
  unsigned number, first element most significant. \<open>twos_complement w u\<close> is the value
  of the \<open>w\<close>-bit pattern \<open>u\<close> in two's complement: the top bit gives the sign, and a
  negative value is \<open>u - 2^w\<close>. \<open>sign_extend_32 w u\<close> copies bit \<open>w - 1\<close> of \<open>u\<close> into
  all higher bits of a 32-bit word and reads the word as a signed 32-bit number.
\<close>

definition is_bit_list :: "int list \<Rightarrow> bool" where
  "is_bit_list xs = list_all (\<lambda>b. b = 0 \<or> b = 1) xs"

definition bits_value :: "int list \<Rightarrow> int" where
  "bits_value xs = foldl (\<lambda>a b. 2 * a + b) 0 xs"

definition twos_complement :: "nat \<Rightarrow> int \<Rightarrow> int" where
  "twos_complement w u = (if bit u (w - 1) then u - 2 ^ w else u)"

definition sign_extend_32 :: "nat \<Rightarrow> int \<Rightarrow> int" where
  "sign_extend_32 w u = sint (signed_take_bit (w - 1) (word_of_int u :: 32 word))"

text \<open>
  The 32-bit number the request builder assembles from the command byte \<open>c\<close>: the
  24-bit header shifted by one byte, with the sum of the three header bytes combined
  into it by bitwise or.
\<close>

definition frame_value :: "int \<Rightarrow> int" where
  "frame_value c = push_bit 8 (push_bit 8 0x5251 OR c) OR (0xA3 + c)"

section \<open>Bit strings and their values\<close>

lemma digit_char_0 [simp]: "digit_char 0 = CHR ''0''"
  by code_simp

lemma digit_char_1 [simp]: "digit_char 1 = CHR ''1''"
  by code_simp

lemma digit_char_mod2: "digit_char (v mod 2) = (if v mod 2 = 0 then CHR ''0'' else CHR ''1'')"
proof -
  have "v mod 2 = 0 \<or> v mod 2 = 1" by presburger
  then show ?thesis by auto
qed

lemma bit_of_digit_char_mod2 [simp]: "bit_of_char (digit_char (v mod 2)) = v mod 2"
  by (simp add: digit_char_mod2 bit_of_char_def)

lemma is_bit_string_append [simp]:
  "is_bit_string (xs @ ys) \<longleftrightarrow> is_bit_string xs \<and> is_bit_string ys"
  by (simp add: is_bit_string_def)

lemma is_bit_string_Nil [simp]: "is_bit_string []"
  by (simp add: is_bit_string_def)

lemma is_bit_string_Cons [simp]:
  "is_bit_string (c # cs) \<longleftrightarrow> (c = CHR ''0'' \<or> c = CHR ''1'') \<and> is_bit_string cs"
  by (simp add: is_bit_string_def)

lemma is_bit_string_take: "is_bit_string s \<Longrightarrow> is_bit_string (take n s)"
  by (induction s arbitrary: n) (auto simp: take_Cons split: nat.splits)

lemma is_bit_string_drop: "is_bit_string s \<Longrightarrow> is_bit_string (drop n s)"
  by (induction s arbitrary: n) (auto simp: drop_Cons split: nat.splits)

lemma is_bit_string_replicate [simp]: "is_bit_string (replicate n (CHR ''0''))"
  by (induction n) auto

lemma length_bin_fixed [simp]: "length (bin_fixed k v) = k"
  by (induction k arbitrary: v) auto

lemma is_bit_string_bin_fixed [simp]: "is_bit_string (bin_fixed k v)"
  by (induction k arbitrary: v) (auto simp: digit_char_mod2)

lemma bin_fixed_zero: "bin_fixed k 0 = replicate k (CHR ''0'')"
  by (induction k) (auto simp: replicate_append_same)

lemma bin_val_snoc: "bin_val (xs @ [c]) = 2 * bin_val xs + bit_of_char c"
  by (simp add: bin_val_def)

lemma bin_val_bin_fixed: "bin_val (bin_fixed k v) = v mod 2 ^ k"
proof (induction k arbitrary: v)
  case 0
  then show ?case by (simp add: bin_val_def)
next
  case (Suc k)
  have "v mod 2 ^ Suc k = 2 * ((v div 2) mod 2 ^ k) + v mod 2"
    by (simp add: zmod_zmult2_eq)
  with Suc show ?case by (simp add: bin_val_snoc)
qed

lemma bin_fixed_add: "bin_fixed (a + b) v = bin_fixed a (v div 2 ^ b) @ bin_fixed b v"
proof (induction b arbitrary: v)
  case 0
  then show ?case by simp
next
  case (Suc b)
  have "v div 2 div 2 ^ b = v div 2 ^ Suc b"
    by (simp add: zdiv_zmult2_eq)
  with Suc [of "v div 2"] show ?case by simp
qed

lemma bin_digits_fixed:
  "0 \<le> n \<Longrightarrow> n < 2 ^ k \<Longrightarrow> 1 \<le> k \<Longrightarrow>
     length (bin_digits n) \<le> k \<and>
     replicate (k - length (bin_digits n)) (CHR ''0'') @ bin_digits n = bin_fixed k n"
proof (induction k arbitrary: n)
  case 0
  then show ?case by simp
next
  case (Suc k)
  show ?case
  proof (cases "n < 2")
    case True
    with Suc.prems have "n div 2 = 0" "n mod 2 = n" by auto
    with True show ?thesis
      by (simp add: bin_digits.simps [of n] bin_fixed_zero)
  next
    case False
    with Suc.prems have k: "1 \<le> k" by (cases k) auto
    from Suc.prems have "0 \<le> n div 2" "n div 2 < 2 ^ k" by auto
    from Suc.IH [OF this k] False show ?thesis
      by (auto simp: bin_digits.simps [of n] Suc_diff_le)
  qed
qed

lemma is_bit_string_bin_digits: "0 \<le> n \<Longrightarrow> is_bit_string (bin_digits n)"
proof (induction n rule: bin_digits.induct)
  case (1 n)
  show ?case
  proof (cases "n < 2")
    case True
    with 1 have "n = 0 \<or> n = 1" by auto
    then show ?thesis by (auto simp: bin_digits.simps [of n])
  next
    case False
    with 1 have "is_bit_string (bin_digits (n div 2))" by simp
    with False show ?thesis
      by (simp add: bin_digits.simps [of n] digit_char_mod2)
  qed
qed

lemma bin_digits_not_Nil: "bin_digits n \<noteq> []"
  by (simp add: bin_digits.simps [of n])

lemma zfill_bit_string:
  "is_bit_string s \<Longrightarrow> zfill w s = replicate (w - length s) (CHR ''0'') @ s"
  by (cases s) (auto simp: zfill_def)

lemma zfill_bin:
  assumes "0 \<le> n" "n < 2 ^ k" "1 \<le> k"
  shows "zfill k (drop 2 (py_bin n)) = bin_fixed k n"
  using assms bin_digits_fixed [OF assms]
  by (simp add: py_bin_def zfill_bit_string is_bit_string_bin_digits)

lemma py_slice_nat: "py_slice (int a) (int b) s = take (b - a) (drop a s)"
  by (auto simp: py_slice_def clamp_index_def Let_def min_def)

lemma not_space_bits [simp]: "\<not> py_isspace (CHR ''0'')" "\<not> py_isspace (CHR ''1'')"
  by (simp_all add: py_isspace_def)

lemma strip_space_bit_string: "is_bit_string s \<Longrightarrow> strip_space s = s"
proof (cases s rule: rev_cases)
  case Nil
  then show ?thesis by (simp add: strip_space_def)
next
  case (snoc ys y)
  assume b: "is_bit_string s"
  with snoc have y: "\<not> py_isspace y" by auto
  from b have "dropWhile py_isspace s = s"
    by (cases s) auto
  with snoc y show ?thesis by (simp add: strip_space_def)
qed

lemma scan_digits2_bits:
  "is_bit_string s \<Longrightarrow> s \<noteq> [] \<or> \<not> us \<Longrightarrow>
     scan_digits2 us acc s = Some (foldl (\<lambda>a c. 2 * a + bit_of_char c) acc s)"
  by (induction s arbitrary: us acc) (auto simp: bit_of_char_def)

lemma skip_prefix2_bits: "is_bit_string s \<Longrightarrow> skip_prefix2 s = s"
  by (cases s rule: skip_prefix2.cases) auto

lemma py_int2_bits:
  assumes "is_bit_string s" "s \<noteq> []"
  shows "py_int2 s = Inr (bin_val s)"
proof -
  from assms have "skip_sign s = (False, s)" by (cases s) auto
  with assms show ?thesis
    by (simp add: py_int2_def strip_space_bit_string skip_prefix2_bits scan_digits2_bits bin_val_def)
qed

lemma py_int2_Nil: "py_int2 [] = Inl InvalidLiteral"
  by (simp add: py_int2_def strip_space_def)

section \<open>The frame built by the request builder\<close>

lemma and_255: "(n::int) AND 0xFF = n mod 256"
proof -
  have "n AND 0xFF = take_bit 8 n"
    by (simp add: take_bit_eq_mask mask_eq_exp_minus_1)
  then show ?thesis by (simp add: take_bit_eq_mod)
qed

lemma int_message_id: "int_from_bytes_big message_id = 0x5251"
  by (simp add: int_from_bytes_big_def message_id_def)

lemma or_low_byte: "take_bit 8 (push_bit 8 (a::int) OR s) = take_bit 8 s"
  by (rule bit_eqI) (auto simp: bit_take_bit_iff bit_or_iff bit_push_bit_iff)

lemma or_high_bytes: "drop_bit 8 (push_bit 8 (a::int) OR s) = a OR drop_bit 8 s"
  by (rule bit_eqI) (auto simp: bit_drop_bit_eq bit_or_iff bit_push_bit_iff)

lemma or_push_add:
  assumes "0 \<le> c" "c < 2 ^ k"
  shows "push_bit k (a::int) OR c = push_bit k a + c"
proof -
  from assms have "take_bit k c = c" by (rule take_bit_int_eq_self)
  moreover have "push_bit k a AND take_bit k c = 0"
    by (rule bit_eqI) (auto simp: bit_and_iff bit_push_bit_iff bit_take_bit_iff)
  ultimately have "push_bit k a AND c = 0" by simp
  then show ?thesis by (simp add: disjunctive_add_eq_or)
qed

lemma div_push_add:
  assumes "0 \<le> c" "c < 2 ^ k"
  shows "(a * 2 ^ k + c) div 2 ^ k = (a::int)"
  using assms by (simp add: div_pos_pos_trivial)

lemma mod_push_add:
  assumes "0 \<le> c" "c < 2 ^ k"
  shows "(a * 2 ^ k + c) mod 2 ^ k = (c::int)"
  using assms by (simp add: mod_pos_pos_trivial)

lemma header_value:
  assumes "0 \<le> c" "c < 256"
  shows "push_bit 8 (0x5251::int) OR c = 0x525100 + c"
  using or_push_add [of c 8 "0x5251"] assms by simp

lemma length_bin_command:
  assumes "0 \<le> n" "n < 2 ^ 32"
  shows "length (zfill 8 (drop 2 (py_bin n))) \<le> 32"
proof -
  from bin_digits_fixed [OF assms, simplified]
  have "length (bin_digits n) \<le> 32" by simp
  with assms show ?thesis
    by (simp add: py_bin_def zfill_bit_string is_bit_string_bin_digits)
qed

lemma frame_value_bounds:
  assumes "0 \<le> c" "c < 256"
  shows "0 \<le> frame_value c" "frame_value c < 2 ^ 32"
proof -
  have hv: "push_bit 8 (0x5251::int) OR c = 0x525100 + c"
    using assms by (rule header_value)
  have a: "(0::int) \<le> push_bit 8 (0x525100 + c)" using assms by simp
  have b: "push_bit 8 (0x525100 + c) < (2::int) ^ 32" using assms by (simp add: push_bit_eq_mult)
  have c: "0xA3 + c < (2::int) ^ 32" using assms by simp
  have d: "(0::int) \<le> 0xA3 + c" using assms by simp
  show "0 \<le> frame_value c"
    unfolding frame_value_def hv or_nonnegative_int_iff using a d by (rule conjI)
  show "frame_value c < 2 ^ 32"
    unfolding frame_value_def hv using a b c by (rule OR_upper)
qed

lemma generate_value:
  assumes "0 \<le> n" "n < 2 ^ 32"
  shows "generate_request_message n = Inr (bin_fixed 32 (frame_value (n AND 0xFF)))"
proof -
  define c where "c = n AND 0xFF"
  have c: "0 \<le> c" "c < 256" by (simp_all add: c_def and_255)
  define h where "h = 0x525100 + c"
  have h: "push_bit 8 0x5251 OR c = h" unfolding h_def using c by (rule header_value)
  have hb: "0 \<le> h" "h < 2 ^ 24" using c by (simp_all add: h_def)
  have rep: "zfill 24 (drop 2 (py_bin h)) = bin_fixed 24 h"
    using hb by (intro zfill_bin) simp_all
  have split: "bin_fixed 24 h = bin_fixed 8 (h div 2 ^ 16) @ bin_fixed 8 (h div 2 ^ 8) @ bin_fixed 8 h"
    using bin_fixed_add [of 8 16 h] bin_fixed_add [of 8 8 h] by simp
  have s0: "py_slice 0 8 (bin_fixed 24 h) = bin_fixed 8 (h div 2 ^ 16)"
    using py_slice_nat [of 0 8 "bin_fixed 24 h"] by (simp add: split)
  have s1: "py_slice 8 16 (bin_fixed 24 h) = bin_fixed 8 (h div 2 ^ 8)"
    using py_slice_nat [of 8 16 "bin_fixed 24 h"] by (simp add: split)
  have s2: "py_slice 16 24 (bin_fixed 24 h) = bin_fixed 8 h"
    using py_slice_nat [of 16 24 "bin_fixed 24 h"] by (simp add: split)
  have ne: "bin_fixed 8 v \<noteq> []" for v
    using length_bin_fixed [of 8 v] by (metis length_0_conv zero_neq_numeral)
  have hm: "h mod 2 ^ 8 = c"
    using mod_push_add [of c 8 "0x5251"] c by (simp add: h_def)
  have hd8: "h div 2 ^ 8 = 0x5251"
    using div_push_add [of c 8 "0x5251"] c by (simp add: h_def)
  have "h div 2 ^ 16 = h div 2 ^ 8 div 2 ^ 8"
    by (simp add: zdiv_zmult2_eq)
  then have hd16: "h div 2 ^ 16 = 0x52"
    by (simp only: hd8) simp
  have b0: "py_int2 (bin_fixed 8 (h div 2 ^ 16)) = Inr 0x52"
    by (simp only: hd16) (simp add: py_int2_bits ne bin_val_bin_fixed)
  have b1: "py_int2 (bin_fixed 8 (h div 2 ^ 8)) = Inr 0x51"
    by (simp only: hd8) (simp add: py_int2_bits ne bin_val_bin_fixed)
  have b2: "py_int2 (bin_fixed 8 h) = Inr c"
    using hm by (simp add: py_int2_bits ne bin_val_bin_fixed)
  have fin: "zfill 32 (drop 2 (py_bin (frame_value c))) = bin_fixed 32 (frame_value c)"
    using frame_value_bounds [OF c] by (intro zfill_bin) simp_all
  have fv: "frame_value c = push_bit 8 h OR (0xA3 + c)"
    unfolding frame_value_def h ..
  from length_bin_command [OF assms] show ?thesis
    unfolding generate_request_message_def Let_def int_message_id c_def [symmetric] h rep s0 s1 s2 b0 b1 b2
    using fin by (simp add: fv)
qed

lemma frame_byte_fixed:
  "frame_byte 0 (bin_fixed 32 x) = x div 2 ^ 24 mod 2 ^ 8"
  "frame_byte 1 (bin_fixed 32 x) = x div 2 ^ 16 mod 2 ^ 8"
  "frame_byte 2 (bin_fixed 32 x) = x div 2 ^ 8 mod 2 ^ 8"
  "frame_byte 3 (bin_fixed 32 x) = x mod 2 ^ 8"
proof -
  have split: "bin_fixed 32 x =
      bin_fixed 8 (x div 2 ^ 24) @ bin_fixed 8 (x div 2 ^ 16) @ bin_fixed 8 (x div 2 ^ 8) @ bin_fixed 8 x"
    using bin_fixed_add [of 8 24 x] bin_fixed_add [of 8 16 x] bin_fixed_add [of 8 8 x] by simp
  show "frame_byte 0 (bin_fixed 32 x) = x div 2 ^ 24 mod 2 ^ 8"
    unfolding split frame_byte_def by (simp add: bin_val_bin_fixed)
  show "frame_byte 1 (bin_fixed 32 x) = x div 2 ^ 16 mod 2 ^ 8"
    unfolding split frame_byte_def by (simp add: bin_val_bin_fixed)
  show "frame_byte 2 (bin_fixed 32 x) = x div 2 ^ 8 mod 2 ^ 8"
    unfolding split frame_byte_def by (simp add: bin_val_bin_fixed)
  show "frame_byte 3 (bin_fixed 32 x) = x mod 2 ^ 8"
    unfolding split frame_byte_def by (simp add: bin_val_bin_fixed)
qed

lemma frame_value_low: "frame_value c mod 2 ^ 8 = (0xA3 + c) mod 2 ^ 8"
  unfolding frame_value_def take_bit_eq_mod [symmetric] by (rule or_low_byte)

lemma frame_value_cmd:
  assumes "0 \<le> c" "c < 256"
  shows "frame_value c div 2 ^ 8 mod 2 ^ 8 = c OR ((0xA3 + c) div 2 ^ 8)"
proof -
  have hv: "push_bit 8 (0x5251::int) OR c = 0x5251 * 2 ^ 8 + c"
    using or_push_add [OF assms(1), of 8 "0x5251"] assms(2) by (simp add: push_bit_eq_mult)
  have s: "0 \<le> (0xA3 + c) div 2 ^ 8" "(0xA3 + c) div 2 ^ 8 < 2 ^ 8"
    using assms by simp_all
  have "frame_value c div 2 ^ 8 = (push_bit 8 0x5251 OR c) OR (0xA3 + c) div 2 ^ 8"
    unfolding frame_value_def drop_bit_eq_div [symmetric] by (rule or_high_bytes)
  then have "frame_value c div 2 ^ 8 mod 2 ^ 8 =
      take_bit 8 (0x5251 * 2 ^ 8 + c) OR take_bit 8 ((0xA3 + c) div 2 ^ 8)"
    unfolding hv by (simp only: take_bit_eq_mod [symmetric] take_bit_or)
  also have "take_bit 8 (0x5251 * 2 ^ 8 + c) = c"
    unfolding take_bit_eq_mod using assms by (intro mod_push_add) simp_all
  also have "take_bit 8 ((0xA3 + c) div 2 ^ 8) = (0xA3 + c) div 2 ^ 8"
    using s by (intro take_bit_int_eq_self) simp_all
  finally show ?thesis .
qed

lemma checksum_carry:
  assumes "0 \<le> c" "c < 256"
  shows "(0xA3 + c) div 2 ^ 8 = (if 0x5D \<le> c then 1 else (0::int))"
proof (cases "0x5D \<le> c")
  case True
  then have "0xA3 + c = 1 * 256 + (c - 93)" by simp
  moreover from True assms have "(1 * 256 + (c - 93)) div 256 = 1"
    by (subst div_mult_self3) (simp_all add: div_pos_pos_trivial)
  ultimately show ?thesis using True by simp
next
  case False
  with assms show ?thesis by (simp add: div_pos_pos_trivial)
qed

lemma cmd_byte_range: "0 \<le> (n::int) AND 0xFF" "(n::int) AND 0xFF < 256"
  by (simp_all add: and_255)

text \<open>
  All four bytes of the returned frame. The last one is the truncated sum of the tag
  bytes and the command byte \<open>n & 0xFF\<close>; it is the truncated sum of the three bytes
  before it in the frame exactly when the carry leaves byte 2 as it was.
\<close>

lemma frame_value_tag:
  assumes "0 \<le> c" "c < 256"
  shows "frame_value c div 2 ^ 16 = 0x5251"
proof -
  have hv: "push_bit 8 (0x5251::int) OR c = 0x5251 * 2 ^ 8 + c"
    using or_push_add [OF assms(1), of 8 "0x5251"] assms(2) by (simp add: push_bit_eq_mult)
  have k: "0 \<le> (0xA3 + c) div 2 ^ 8" "(0xA3 + c) div 2 ^ 8 < 2 ^ 8"
    using assms by simp_all
  have "frame_value c div 2 ^ 8 = (push_bit 8 0x5251 OR c) OR (0xA3 + c) div 2 ^ 8"
    unfolding frame_value_def drop_bit_eq_div [symmetric] by (rule or_high_bytes)
  also have "\<dots> = push_bit 8 0x5251 OR (c OR (0xA3 + c) div 2 ^ 8)"
    by (simp only: or.assoc)
  finally have "frame_value c div 2 ^ 8 div 2 ^ 8 =
      drop_bit 8 (push_bit 8 0x5251 OR (c OR (0xA3 + c) div 2 ^ 8))"
    by (simp only: drop_bit_eq_div)
  also have "\<dots> = 0x5251 OR drop_bit 8 (c OR (0xA3 + c) div 2 ^ 8)"
    by (rule or_high_bytes)
  also have "drop_bit 8 (c OR (0xA3 + c) div 2 ^ 8) = 0"
  proof -
    have "0 \<le> c OR (0xA3 + c) div 2 ^ 8"
      using assms(1) k(1) by (simp only: or_nonnegative_int_iff)
    moreover have "c OR (0xA3 + c) div 2 ^ 8 < 2 ^ 8"
      using assms k by (intro OR_upper) simp_all
    ultimately show ?thesis
      by (simp only: drop_bit_eq_div) (simp add: div_pos_pos_trivial)
  qed
  finally have "frame_value c div 2 ^ 8 div 2 ^ 8 = 0x5251" by simp
  moreover have "frame_value c div 2 ^ 16 = frame_value c div 2 ^ 8 div 2 ^ 8"
    by (simp add: zdiv_zmult2_eq)
  ultimately show ?thesis by simp
qed

lemma frame_value_tag_bytes:
  assumes "0 \<le> c" "c < 256"
  shows "frame_value c div 2 ^ 24 mod 2 ^ 8 = 0x52" "frame_value c div 2 ^ 16 mod 2 ^ 8 = 0x51"
proof -
  have "frame_value c div 2 ^ 24 = frame_value c div 2 ^ 16 div 2 ^ 8"
    by (simp add: zdiv_zmult2_eq)
  then show "frame_value c div 2 ^ 24 mod 2 ^ 8 = 0x52"
    by (simp only: frame_value_tag [OF assms]) simp
  show "frame_value c div 2 ^ 16 mod 2 ^ 8 = 0x51"
    by (simp only: frame_value_tag [OF assms]) simp
qed

lemma request_frame_bytes:
  assumes "0 \<le> n" "n < 2 ^ 32"
  shows "\<exists>f. generate_request_message n = Inr f \<and>
             frame_byte 0 f = 0x52 \<and> frame_byte 1 f = 0x51 \<and>
             frame_byte 2 f = (if 0x5D \<le> n AND 0xFF then (n AND 0xFF) OR 1 else n AND 0xFF) \<and>
             frame_byte 3 f = (0x52 + 0x51 + (n AND 0xFF)) AND 0xFF"
proof -
  define c where "c = n AND 0xFF"
  have c: "0 \<le> c" "c < 256" by (simp_all add: c_def cmd_byte_range)
  define f where "f = bin_fixed 32 (frame_value c)"
  have g: "generate_request_message n = Inr f"
    unfolding f_def c_def using assms by (rule generate_value)
  have b0: "frame_byte 0 f = 0x52" and b1: "frame_byte 1 f = 0x51"
    unfolding f_def frame_byte_fixed by (rule frame_value_tag_bytes [OF c])+
  have b2: "frame_byte 2 f = (if 0x5D \<le> c then c OR 1 else c)"
    unfolding f_def frame_byte_fixed frame_value_cmd [OF c] checksum_carry [OF c] by simp
  have b3: "frame_byte 3 f = (0x52 + 0x51 + c) AND 0xFF"
    unfolding f_def frame_byte_fixed using frame_value_low [of c]
    by (simp add: and_255 [of "163 + c"])
  from g b0 b1 b2 b3 show ?thesis
    unfolding c_def [symmetric] by blast
qed

lemma checksum_matches_frame_iff:
  assumes "0 \<le> n" "n < 2 ^ 32" "generate_request_message n = Inr f"
  shows "frame_byte 3 f = (frame_byte 0 f + frame_byte 1 f + frame_byte 2 f) AND 0xFF
         \<longleftrightarrow> n AND 0xFF < 0x5D \<or> odd (n AND 0xFF)"
proof -
  define c where "c = n AND 0xFF"
  have c: "0 \<le> c" "c < 256" by (simp_all add: c_def cmd_byte_range)
  from request_frame_bytes [OF assms(1,2)] assms(3)
  have b: "frame_byte 0 f = 0x52" "frame_byte 1 f = 0x51"
    "frame_byte 2 f = (if 0x5D \<le> c then c OR 1 else c)"
    "frame_byte 3 f = (0x52 + 0x51 + c) AND 0xFF"
    unfolding c_def by auto
  have o: "c OR 1 = (if even c then c + 1 else c)"
    by (simp add: or_one_eq)
  have m: "(163 + c) mod 256 \<noteq> (164 + c) mod 256"
  proof
    assume "(163 + c) mod 256 = (164 + c) mod 256"
    then have "(164 + c - (163 + c)) mod 256 = 0"
      by (metis mod_diff_cong cancel_comm_monoid_add_class.diff_cancel mod_0)
    then show False by simp
  qed
  show ?thesis
    unfolding c_def [symmetric] b
    using m by (auto simp: o and_255 [of "163 + c"] and_255 [of "164 + c"] and_255 [of "163 + (c + 1)"] add.assoc)
qed

section \<open>Properties of the request builder\<close>

text \<open>
  Claim C8. \<open>generate_request_message(0x1F)\<close> returns the 32-character bit string
  \<open>01010010010100010001111111000010\<close>: the 32-bit value \<open>0x52511FC2\<close>, whose bytes are
  the tag \<open>0x52 0x51\<close>, the command byte \<open>0x1F\<close> and the checksum byte \<open>0xC2\<close>.
\<close>

theorem request_0x1F:
  "generate_request_message 0x1F = Inr ''01010010010100010001111111000010'' \<and>
   length ''01010010010100010001111111000010'' = 32 \<and>
   bin_val ''01010010010100010001111111000010'' = 0x52511FC2 \<and>
   frame_byte 0 ''01010010010100010001111111000010'' = 0x52 \<and>
   frame_byte 1 ''01010010010100010001111111000010'' = 0x51 \<and>
   frame_byte 2 ''01010010010100010001111111000010'' = 0x1F \<and>
   frame_byte 3 ''01010010010100010001111111000010'' = 0xC2"
  by code_simp

text \<open>
  Claim C7 says that the last byte of the frame (bits 24-31) is
  \<open>(0x52 + 0x51 + (n & 0xFF)) & 0xFF\<close>, that is, the sum of the three bytes before it
  truncated to eight bits; the builder's comment calls it the checksum of the previous
  bytes. At \<open>n = 0xC8\<close> the returned frame is \<open>52 51 C9 6B\<close>: the last byte is the
  truncated sum of \<open>0x52\<close>, \<open>0x51\<close> and \<open>0xC8\<close>, but the carry of that sum has
  changed byte 2 to \<open>0xC9\<close>, and the three bytes before the checksum sum to \<open>0x6C\<close>.
\<close>

theorem checksum_not_sum_of_frame_bytes:
  "generate_request_message 0xC8 = Inr ''01010010010100011100100101101011'' \<and>
   frame_byte 0 ''01010010010100011100100101101011'' = 0x52 \<and>
   frame_byte 1 ''01010010010100011100100101101011'' = 0x51 \<and>
   frame_byte 2 ''01010010010100011100100101101011'' = 0xC9 \<and>
   frame_byte 3 ''01010010010100011100100101101011'' = 0x6B \<and>
   (0x52 + 0x51 + ((0xC8::int) AND 0xFF)) AND 0xFF = 0x6B \<and>
   (0x52 + 0x51 + (0xC9::int)) AND 0xFF = 0x6C"
  by code_simp

text \<open>
  Claim C9. For every command number \<open>0 \<le> n < 2^32\<close> the builder returns a string of 32
  bits that encodes \<open>((0x5251 << 16) | ((n & 0xFF) << 8)) | (0xA3 + (n & 0xFF))\<close>. The sum
  is combined by bitwise or without being reduced, so its bit 8 falls into byte 2: that
  byte reads \<open>(n & 0xFF) | 1\<close> when \<open>n & 0xFF \<ge> 0x5D\<close>, and \<open>n & 0xFF\<close> below.
\<close>

theorem request_frame_value:
  assumes "0 \<le> n" "n < 2 ^ 32"
  shows "\<exists>f. generate_request_message n = Inr f \<and> length f = 32 \<and> is_bit_string f \<and>
             bin_val f =
               (push_bit 16 0x5251 OR push_bit 8 (n AND 0xFF)) OR (0xA3 + (n AND 0xFF)) \<and>
             frame_byte 2 f =
               (if 0x5D \<le> n AND 0xFF then (n AND 0xFF) OR 1 else n AND 0xFF)"
proof -
  define c where "c = n AND 0xFF"
  have c: "0 \<le> c" "c < 256" by (simp_all add: c_def cmd_byte_range)
  define f where "f = bin_fixed 32 (frame_value c)"
  have g: "generate_request_message n = Inr f"
    unfolding f_def c_def using assms by (rule generate_value)
  have v: "bin_val f = frame_value c"
    unfolding f_def bin_val_bin_fixed using frame_value_bounds [OF c]
    by (simp add: mod_pos_pos_trivial)
  have "frame_value c = (push_bit 16 0x5251 OR push_bit 8 c) OR (0xA3 + c)"
    unfolding frame_value_def push_bit_or push_bit_push_bit by simp
  with v have v': "bin_val f = (push_bit 16 0x5251 OR push_bit 8 c) OR (0xA3 + c)"
    by simp
  have b: "frame_byte 2 f = (if 0x5D \<le> c then c OR 1 else c)"
    unfolding f_def frame_byte_fixed frame_value_cmd [OF c] checksum_carry [OF c] by simp
  from g v' b show ?thesis
    unfolding c_def [symmetric] by (simp add: f_def)
qed

text \<open>At \<open>n = 0x5E\<close> the frame encodes \<open>0x52515F01\<close> and byte 2 reads \<open>0x5F\<close>.\<close>

theorem request_frame_value_witness:
  "(0::int) \<le> 94 \<and> (94::int) < 2 ^ 32 \<and>
   (\<exists>f. generate_request_message 94 = Inr f \<and> length f = 32 \<and> is_bit_string f \<and>
        bin_val f = 0x52515F01 \<and> frame_byte 2 f = 0x5F)"
  using request_frame_value [of 94] by simp

text \<open>
  Claim C1 says that byte 2 of the frame is \<open>n\<close> for every \<open>0 \<le> n \<le> 255\<close>, and
  \<open>n & 0xFF\<close> for larger \<open>n\<close>. The builder's own comments say the same of byte 2, but at
  \<open>n = 0x5E\<close> the three header bytes sum to \<open>0x101\<close>, the carry is combined into
  the command byte, and byte 2 of the returned frame is \<open>0x5F\<close>.
\<close>

theorem command_byte_clobbered:
  "generate_request_message 0x5E = Inr ''01010010010100010101111100000001'' \<and>
   frame_byte 2 ''01010010010100010101111100000001'' = 0x5F \<and>
   (0x5E::int) AND 0xFF = 0x5E"
  by code_simp

section \<open>What the response parser computes on bit strings\<close>

lemma py_int10_char_bits [simp]:
  "py_int10_char (CHR ''0'') = Inr 0" "py_int10_char (CHR ''1'') = Inr 1"
  by (simp_all add: py_int10_char_def)

lemma int_each_bits: "is_bit_string s \<Longrightarrow> int_each s = Inr (map bit_of_char s)"
  by (induction s) (auto simp: bit_of_char_def)

lemma bin_val_nonneg: "0 \<le> bin_val s"
proof -
  have "0 \<le> a \<Longrightarrow> 0 \<le> foldl (\<lambda>a c. 2 * a + bit_of_char c) a s" for a
    by (induction s arbitrary: a) (auto simp: bit_of_char_def)
  then show ?thesis by (simp add: bin_val_def)
qed

lemma is_bit_list_map: "is_bit_list (map bit_of_char s)"
  by (induction s) (auto simp: is_bit_list_def bit_of_char_def)

lemma parse_short:
  assumes "length s \<le> 24"
  shows "parse_din_status_response s = Inl InvalidLiteral"
proof -
  from assms have "py_slice 24 40 s = []"
    using py_slice_nat [of 24 40 s] by simp
  then show ?thesis
    by (simp add: parse_din_status_response_def py_int2_Nil)
qed

lemma parse_bits:
  assumes "is_bit_string s" "24 < length s"
  shows "parse_din_status_response s =
           Inr (map bit_of_char (take (8 * length_field s) (drop 40 s)))"
proof -
  define t where "t = take 16 (drop 24 s)"
  have t: "py_slice 24 40 s = t"
    using py_slice_nat [of 24 40 s] by (simp add: t_def)
  from assms have "is_bit_string t" "t \<noteq> []"
    by (auto simp: t_def is_bit_string_take is_bit_string_drop)
  then have n: "py_int2 t = Inr (bin_val t)" by (rule py_int2_bits)
  have "40 + bin_val t * 8 = int (40 + 8 * length_field s)"
    using bin_val_nonneg [of t] by (simp add: length_field_def t_def)
  then have p: "py_slice 40 (40 + bin_val t * 8) s = take (8 * length_field s) (drop 40 s)"
    using py_slice_nat [of 40 "40 + 8 * length_field s" s] by (simp add: mult.commute)
  have "is_bit_string (take (8 * length_field s) (drop 40 s))"
    using assms(1) by (simp add: is_bit_string_take is_bit_string_drop)
  then show ?thesis
    by (simp add: parse_din_status_response_def t n p int_each_bits)
qed

section \<open>What the status interpreter computes on bit arrays\<close>

lemma py_str_bits [simp]: "py_str 0 = Inr ''0''" "py_str 1 = Inr ''1''"
  by (simp_all add: py_str_def dec_digits.simps [of 0] dec_digits.simps [of 1])

lemma is_bit_list_Cons [simp]:
  "is_bit_list (b # bs) \<longleftrightarrow> (b = 0 \<or> b = 1) \<and> is_bit_list bs"
  by (simp add: is_bit_list_def)

lemma is_bit_list_Nil [simp]: "is_bit_list []"
  by (simp add: is_bit_list_def)

lemma join_str_bits: "is_bit_list xs \<Longrightarrow> join_str xs = Inr (map digit_char xs)"
  by (induction xs) auto

lemma bit_string_of_bits:
  "is_bit_list xs \<Longrightarrow> is_bit_string (map digit_char xs)"
  by (induction xs) auto

lemma foldl_str_bits:
  "is_bit_list xs \<Longrightarrow>
     foldl (\<lambda>a c. 2 * a + bit_of_char c) acc (map digit_char xs) =
     foldl (\<lambda>a b. 2 * a + b) acc xs"
  by (induction xs arbitrary: acc) (auto simp: bit_of_char_def)

lemma bin_val_str_bits: "is_bit_list xs \<Longrightarrow> bin_val (map digit_char xs) = bits_value xs"
  by (simp add: bin_val_def bits_value_def foldl_str_bits)

lemma bits_value_snoc: "bits_value (xs @ [b]) = 2 * bits_value xs + b"
  by (simp add: bits_value_def)

lemma bits_value_range:
  "is_bit_list xs \<Longrightarrow> 0 \<le> bits_value xs \<and> bits_value xs < 2 ^ length xs"
proof (induction xs rule: rev_induct)
  case Nil
  then show ?case by (simp add: bits_value_def)
next
  case (snoc b bs)
  then have b: "b = 0 \<or> b = 1" and bs: "is_bit_list bs"
    by (simp_all add: is_bit_list_def)
  from snoc.IH [OF bs] have "0 \<le> bits_value bs" "bits_value bs + 1 \<le> 2 ^ length bs"
    by simp_all
  then have "0 \<le> 2 * bits_value bs + b" "2 * bits_value bs + b < 2 * 2 ^ length bs"
    using b by auto
  then show ?case by (simp add: bits_value_snoc)
qed

lemma twos_complement_range:
  assumes "0 \<le> u" "u < 2 ^ w" "1 \<le> w"
  shows "twos_complement w u = signed_take_bit (w - 1) u"
proof -
  from assms have "take_bit (Suc (w - 1)) u = u"
    by (intro take_bit_int_eq_self) simp_all
  with assms show ?thesis
    by (simp add: twos_complement_def signed_take_bit_eq_take_bit_minus)
qed


lemma normalise_32:
  assumes "- (2 ^ 31) \<le> (v::int)" "v < 2 ^ 31"
  shows "(if v AND 0xFFFFFFFF \<ge> 0x80000000 then (v AND 0xFFFFFFFF) - 0x100000000
          else v AND 0xFFFFFFFF) = v"
proof -
  have m: "v AND 0xFFFFFFFF = v mod 2 ^ 32"
  proof -
    have "v AND 0xFFFFFFFF = take_bit 32 v"
      by (simp add: take_bit_eq_mask mask_eq_exp_minus_1)
    then show ?thesis by (simp add: take_bit_eq_mod)
  qed
  show ?thesis
  proof (cases "0 \<le> v")
    case True
    with assms have "v mod 2 ^ 32 = v" by (simp add: mod_pos_pos_trivial)
    with assms show ?thesis unfolding m by simp
  next
    case False
    have "v mod 2 ^ 32 = (v + 2 ^ 32) mod 2 ^ 32" by simp
    also from False assms have "\<dots> = v + 2 ^ 32"
      by (intro mod_pos_pos_trivial) simp_all
    finally have "v mod 2 ^ 32 = v + 2 ^ 32" .
    with False assms show ?thesis unfolding m by simp
  qed
qed


lemma sign_extend_32_range:
  assumes "1 \<le> w" "w \<le> 32"
  shows "sign_extend_32 w u = signed_take_bit (w - 1) u"
proof -
  from assms have w: "w - 1 < 32" by simp
  have "sint (signed_take_bit (w - 1) (word_of_int u :: 32 word)) =
        signed_take_bit 31 (signed_take_bit (w - 1) (take_bit 32 u))"
    by transfer simp
  also from w have "\<dots> = signed_take_bit (w - 1) u"
    by (auto simp: signed_take_bit_take_bit min_def dest: le_antisym)
  finally show ?thesis by (simp add: sign_extend_32_def)
qed

lemma din_bits:
  assumes "is_bit_list xs" "1 \<le> length xs" "length xs \<le> 32"
  shows "din_status_to_32bit_signed_integer xs =
           Inr (twos_complement (length xs) (bits_value xs))"
proof -
  define w where "w = length xs"
  define u where "u = bits_value xs"
  from assms have w: "1 \<le> w" "w \<le> 32" by (simp_all add: w_def)
  from bits_value_range [OF assms(1)] have u: "0 \<le> u" "u < 2 ^ w"
    by (simp_all add: u_def w_def)
  have j: "join_str xs = Inr (map digit_char xs)"
    using assms(1) by (rule join_str_bits)
  from assms(2) have "map digit_char xs \<noteq> []" by auto
  with bit_string_of_bits [OF assms(1)]
  have p: "py_int2 (map digit_char xs) = Inr u"
    by (simp add: py_int2_bits bin_val_str_bits [OF assms(1)] u_def)
  have t: "(u AND push_bit (w - 1) 1 \<noteq> 0) = bit u (w - 1)"
    by (simp add: and_exp_eq_0_iff_not_bit)
  have s: "(if u AND push_bit (w - 1) 1 \<noteq> 0 then u - push_bit w 1 else u) =
             twos_complement w u"
    unfolding t by (simp add: twos_complement_def)
  have r: "twos_complement w u = signed_take_bit (w - 1) u"
    using u w(1) by (rule twos_complement_range)
  have "(2::int) ^ (w - 1) \<le> 2 ^ 31"
    using w by (intro power_increasing) simp_all
  with signed_take_bit_int_greater_eq_minus_exp [of "w - 1" u]
    signed_take_bit_int_less_exp [of "w - 1" u]
  have "- (2 ^ 31) \<le> twos_complement w u" "twos_complement w u < 2 ^ 31"
    unfolding r by linarith+
  then have n: "(if twos_complement w u AND 0xFFFFFFFF \<ge> 0x80000000
                 then (twos_complement w u AND 0xFFFFFFFF) - 0x100000000
                 else twos_complement w u AND 0xFFFFFFFF) = twos_complement w u"
    by (rule normalise_32)
  from w have "\<not> 32 < w" "w \<noteq> 0" by simp_all
  then have "din_status_to_32bit_signed_integer xs = Inr (twos_complement w u)"
    unfolding din_status_to_32bit_signed_integer_def Let_def w_def [symmetric] j
    by (simp only: if_False sum.case p s n)
  then show ?thesis by (simp only: w_def u_def)
qed

section \<open>Properties of the response parser\<close>

text \<open>
  Claim C6 (round trip). For every frame of bits whose bits 24 to 39 encode \<open>N\<close> and
  which holds at least \<open>40 + 8N\<close> bits, the parser returns exactly the \<open>8N\<close> bits at
  positions \<open>40 .. 40 + 8N - 1\<close>, in order, each as the integer 0 or 1.
\<close>

theorem parse_round_trip:
  assumes "is_bit_string s" "40 + 8 * length_field s \<le> length s"
  shows "parse_din_status_response s =
           Inr (map bit_of_char (take (8 * length_field s) (drop 40 s))) \<and>
         length (take (8 * length_field s) (drop 40 s)) = 8 * length_field s"
  using assms by (simp add: parse_bits)

text \<open>The frame of the module's own example: \<open>N = 1\<close>, payload \<open>10101010\<close>.\<close>

theorem parse_round_trip_witness:
  "is_bit_string ''01010010010100110001111100000000000000011010101011111111'' \<and>
   40 + 8 * length_field ''01010010010100110001111100000000000000011010101011111111''
     \<le> length ''01010010010100110001111100000000000000011010101011111111'' \<and>
   parse_din_status_response ''01010010010100110001111100000000000000011010101011111111''
     = Inr [1, 0, 1, 0, 1, 0, 1, 0]"
proof -
  have b: "is_bit_string ''01010010010100110001111100000000000000011010101011111111''"
    by simp
  have n: "length_field ''01010010010100110001111100000000000000011010101011111111'' = 1"
    by (simp add: length_field_def bin_val_def bit_of_char_def)
  have l: "40 + 8 * length_field ''01010010010100110001111100000000000000011010101011111111''
     \<le> length ''01010010010100110001111100000000000000011010101011111111''"
    by (simp add: n)
  from parse_round_trip [OF b l] b l show ?thesis
    by (simp add: n bit_of_char_def)
qed

text \<open>
  Claim C10. For every string of bits of length \<open>L \<ge> 40\<close> the parser returns an array of
  length \<open>min (8N) (L - 40)\<close>, where \<open>N\<close> is the value of bits 24 to 39. Every element is
  0 or 1, and the elements are the input characters from position 40 on, in their order.
\<close>

theorem parse_length:
  assumes "is_bit_string s" "40 \<le> length s"
  shows "parse_din_status_response s =
           Inr (map bit_of_char (take (8 * length_field s) (drop 40 s))) \<and>
         length (map bit_of_char (take (8 * length_field s) (drop 40 s))) =
           min (8 * length_field s) (length s - 40) \<and>
         is_bit_list (map bit_of_char (take (8 * length_field s) (drop 40 s)))"
  using assms by (simp add: parse_bits is_bit_list_map)

text \<open>A frame that declares two bytes and carries one: the array has eight elements.\<close>

theorem parse_length_witness:
  "is_bit_string ''010100100101001100011111000000000000001010101010'' \<and>
   40 \<le> length ''010100100101001100011111000000000000001010101010'' \<and>
   length_field ''010100100101001100011111000000000000001010101010'' = 2 \<and>
   parse_din_status_response ''010100100101001100011111000000000000001010101010''
     = Inr [1, 0, 1, 0, 1, 0, 1, 0]"
proof -
  have b: "is_bit_string ''010100100101001100011111000000000000001010101010''"
    by simp
  have n: "length_field ''010100100101001100011111000000000000001010101010'' = 2"
    by (simp add: length_field_def bin_val_def bit_of_char_def)
  have l: "40 \<le> length ''010100100101001100011111000000000000001010101010''"
    by simp
  from parse_length [OF b l] b l n show ?thesis
    by (simp add: bit_of_char_def)
qed

text \<open>
  Claim C3 says that the parser never raises, also on frames too short to hold a length
  field. A frame that ends after the tag and the command byte has the empty string
  at bits 24 to 39, and \<open>int('', 2)\<close> raises \<open>ValueError\<close>.
\<close>

theorem parse_raises_on_header_only:
  "parse_din_status_response ''010100100101001100011111'' = Inl InvalidLiteral"
  by code_simp

text \<open>
  Claim C3, amended. On a string of bits the parser raises exactly when the string has
  at most 24 characters, so that no bit of the length field is present. On every longer
  string of bits, also one shorter than its length field declares, it returns the
  payload bits that are present: a shorter or empty array.
\<close>

theorem parse_raises_iff_short:
  assumes "is_bit_string s"
  shows "parse_din_status_response s =
           (if length s \<le> 24 then Inl InvalidLiteral
            else Inr (map bit_of_char (take (8 * length_field s) (drop 40 s))))"
  using assms by (simp add: parse_bits parse_short)

text \<open>A 40-bit frame that declares 682 bytes returns the empty array; a 23-bit one raises.\<close>

theorem parse_raises_iff_short_witness:
  "is_bit_string ''0101001001010011000111110000001010101010'' \<and>
   parse_din_status_response ''0101001001010011000111110000001010101010'' = Inr [] \<and>
   is_bit_string ''01010010010100110001111'' \<and>
   parse_din_status_response ''01010010010100110001111'' = Inl InvalidLiteral"
proof -
  have b: "is_bit_string ''0101001001010011000111110000001010101010''"
    by simp
  have c: "is_bit_string ''01010010010100110001111''"
    by simp
  from parse_raises_iff_short [OF b] parse_raises_iff_short [OF c] b c show ?thesis
    by simp
qed

text \<open>
  Claim C4 reads the frame as tag (16 bits), command (8 bits), a length \<open>N\<close> of one byte at
  bits 24 to 31, and \<open>8N\<close> payload bits from bit 32 on. On the frame laid out that way
  with \<open>N = 1\<close> and payload \<open>10101010\<close> the parser does not return the payload: it reads
  the sixteen bits 24 to 39 as the length and finds nothing from bit 40 on.
\<close>

theorem parse_one_byte_length_frame:
  "parse_din_status_response (''0101001001010011'' @ ''00011111'' @ ''00000001'' @ ''10101010'')
     \<noteq> Inr (map bit_of_char ''10101010'')"
  by code_simp

text \<open>
  Claim C4, amended. The parser reads the layout tag (16 bits), command (8 bits), length
  \<open>N\<close> (16 bits, at bits 24 to 39), payload (\<open>8N\<close> bits, from bit 40 on): for every frame
  laid out that way it returns exactly the payload bits.
\<close>

theorem parse_wire_layout:
  assumes "is_bit_string tag" "length tag = 16"
    and "is_bit_string cmd" "length cmd = 8"
    and "is_bit_string len" "length len = 16"
    and "is_bit_string payload" "length payload = 8 * nat (bin_val len)"
  shows "parse_din_status_response (tag @ cmd @ len @ payload) = Inr (map bit_of_char payload)"
proof -
  have f: "length_field (tag @ cmd @ len @ payload) = nat (bin_val len)"
    using assms by (simp add: length_field_def)
  from assms have "parse_din_status_response (tag @ cmd @ len @ payload) =
      Inr (map bit_of_char (take (8 * length_field (tag @ cmd @ len @ payload))
             (drop 40 (tag @ cmd @ len @ payload))))"
    by (intro parse_bits) simp_all
  with assms show ?thesis by (simp add: f)
qed

theorem parse_wire_layout_witness:
  "is_bit_string ''0101001001010011'' \<and> length ''0101001001010011'' = 16 \<and>
   is_bit_string ''00011111'' \<and> length ''00011111'' = 8 \<and>
   is_bit_string ''0000000000000001'' \<and> length ''0000000000000001'' = 16 \<and>
   is_bit_string ''10101010'' \<and> length ''10101010'' = 8 * nat (bin_val ''0000000000000001'') \<and>
   parse_din_status_response
     (''0101001001010011'' @ ''00011111'' @ ''0000000000000001'' @ ''10101010'')
     = Inr [1, 0, 1, 0, 1, 0, 1, 0]"
proof -
  have n: "length ''10101010'' = 8 * nat (bin_val ''0000000000000001'')"
    by (simp add: bin_val_def bit_of_char_def)
  from parse_wire_layout [of "''0101001001010011''" "''00011111''" "''0000000000000001''"
      "''10101010''"] n
  show ?thesis by (simp add: bit_of_char_def)
qed

section \<open>Properties of the status interpreter\<close>

text \<open>
  Claim C5. For every array over \<open>0\<close> and \<open>1\<close> of length \<open>w\<close> with \<open>1 \<le> w \<le> 32\<close> the
  interpreter returns the width-\<open>w\<close> two's-complement value of the array. Its two
  stages (subtract \<open>2^w\<close> when the leading bit is set; then mask with \<open>0xFFFFFFFF\<close> and
  subtract \<open>2^32\<close> from a masked value of at least \<open>2^31\<close>) give the same number as
  sign extension to 32 bits, at all these widths. The array of 32 ones yields \<open>-1\<close>.
\<close>

theorem signed_value_is_twos_complement:
  assumes "is_bit_list xs" "1 \<le> length xs" "length xs \<le> 32"
  shows "din_status_to_32bit_signed_integer xs =
           Inr (twos_complement (length xs) (bits_value xs)) \<and>
         twos_complement (length xs) (bits_value xs) =
           sign_extend_32 (length xs) (bits_value xs) \<and>
         din_status_to_32bit_signed_integer (replicate 32 1) = Inr (- 1)"
proof -
  from bits_value_range [OF assms(1)]
  have "twos_complement (length xs) (bits_value xs) =
          signed_take_bit (length xs - 1) (bits_value xs)"
    using assms(2) by (intro twos_complement_range) simp_all
  moreover have "din_status_to_32bit_signed_integer (replicate 32 1) = Inr (- 1)"
    by code_simp
  ultimately show ?thesis
    using assms by (simp add: din_bits sign_extend_32_range)
qed

text \<open>The three-bit array \<open>[1, 0, 1]\<close> is \<open>5 - 8 = -3\<close>.\<close>

theorem signed_value_is_twos_complement_witness:
  "is_bit_list [1, 0, 1] \<and> 1 \<le> length [1, 0, 1 :: int] \<and> length [1, 0, 1 :: int] \<le> 32 \<and>
   din_status_to_32bit_signed_integer [1, 0, 1] = Inr (- 3) \<and>
   sign_extend_32 3 5 = - 3"
proof -
  have b: "is_bit_list [1, 0, 1]" by simp
  have l: "length [1, 0, 1 :: int] = 3" by simp
  have lo: "1 \<le> length [1, 0, 1 :: int]" and hi: "length [1, 0, 1 :: int] \<le> 32"
    by simp_all
  have v: "bits_value [1, 0, 1] = 5" by (simp add: bits_value_def)
  have t: "twos_complement 3 5 = - 3" by (simp add: twos_complement_def)
  from signed_value_is_twos_complement [OF b lo hi]
  have d: "din_status_to_32bit_signed_integer [1, 0, 1] = Inr (twos_complement 3 5)"
    and e: "twos_complement 3 5 = sign_extend_32 3 5"
    unfolding l v by blast+
  from d e t b lo hi show ?thesis by simp
qed

text \<open>
  Claim C2 says that the interpreter returns 0 on the empty array. It does not: the
  empty array gives the empty bit string, and \<open>int('', 2)\<close> raises \<open>ValueError\<close>.
\<close>

theorem empty_array_not_zero:
  "din_status_to_32bit_signed_integer [] \<noteq> Inr 0"
  by code_simp

text \<open>
  Claim C2, amended. On the empty array the interpreter raises the \<open>ValueError\<close> of an
  invalid literal for \<open>int\<close> with base 2.
\<close>

theorem empty_array_raises:
  "din_status_to_32bit_signed_integer [] = Inl InvalidLiteral"
  by code_simp

end
